theory Spec2Isabelle
  imports
    Main
    "HOL-Library.Char_ord"
    "HOL-Library.List_Lexorder"
    "HOL-Library.Product_Lexorder"
    "HOL-Library.Multiset"
    "HOL-Library.AList"
    "HOL-Library.Sublist"
begin

section \<open>The manifest builder of \<^verbatim>\<open>update_manifest.py\<close>\<close>

text \<open>
  The script lists the entries of the directory \<^verbatim>\<open>docs\<close> whose name ends in
  \<^verbatim>\<open>.html\<close>, reads a date off the end of each name, and writes the names, newest first,
  to \<^verbatim>\<open>docs/files.json\<close>.

  A Python \<^verbatim>\<open>str\<close> is modelled as a \<^typ>\<open>string\<close>: a list of 8-bit characters, each
  read as the code point of the same number. This is exact for names whose code points
  are below 256; among those, the decimal digits that \<^verbatim>\<open>\d\<close> accepts are exactly
  \<^verbatim>\<open>0\<close> to \<^verbatim>\<open>9\<close>.
\<close>

subsection \<open>Characters, \<^verbatim>\<open>int\<close> and \<^verbatim>\<open>datetime\<close>\<close>

datatype exn = ValueError

definition newline :: char where
  "newline = CHR 0x0A"

definition isdigit :: "char \<Rightarrow> bool" where
  "isdigit c = (c \<in> set ''0123456789'')"

definition digit_value :: "char \<Rightarrow> int" where
  "digit_value c = of_char c - 48"

text \<open>
  \<^verbatim>\<open>int(s)\<close> on a string of decimal digits. Python's \<^verbatim>\<open>int\<close> also accepts a sign,
  surrounding blanks and underscores between digits; the script only ever passes it a
  group that \<^verbatim>\<open>\d\<close> matched, so the model raises on everything else.
\<close>

definition decimal :: "string \<Rightarrow> int" where
  "decimal s = foldl (\<lambda>a c. 10 * a + digit_value c) 0 s"

definition py_int :: "string \<Rightarrow> exn + int" where
  "py_int s =
     (if s \<noteq> [] \<and> list_all isdigit s then Inr (decimal s) else Inl ValueError)"

text \<open>
  A \<^verbatim>\<open>datetime\<close> built from year, month and day has every time field zero, and two such
  values compare as their (year, month, day) triples do.
\<close>

record datetime =
  year :: int
  month :: int
  day :: int

definition date_key :: "datetime \<Rightarrow> int \<times> int \<times> int" where
  "date_key d = (year d, month d, day d)"

definition is_leap :: "int \<Rightarrow> bool" where
  "is_leap y = (y mod 4 = 0 \<and> (y mod 100 \<noteq> 0 \<or> y mod 400 = 0))"

definition days_in_month :: "int \<Rightarrow> int \<Rightarrow> int" where
  "days_in_month y m =
     (if m = 2 \<and> is_leap y then 29
      else [-1, 31, 28, 31, 30, 31, 30, 31, 31, 30, 31, 30, 31] ! nat m)"

text \<open>
  The constructor \<^verbatim>\<open>datetime(year, month, day)\<close>: it checks the year, then the month,
  then the day against the length of that month, and raises \<^verbatim>\<open>ValueError\<close> otherwise.
\<close>

definition datetime_new :: "int \<Rightarrow> int \<Rightarrow> int \<Rightarrow> exn + datetime" where
  "datetime_new y m d =
     (if \<not> (1 \<le> y \<and> y \<le> 9999) then Inl ValueError
      else if \<not> (1 \<le> m \<and> m \<le> 12) then Inl ValueError
      else if \<not> (1 \<le> d \<and> d \<le> days_in_month y m) then Inl ValueError
      else Inr \<lparr>year = y, month = m, day = d\<rparr>)"

subsection \<open>The pattern \<^verbatim>\<open>_(\d{1,2})-(\d{1,2})-(\d{2})\.html$\<close>\<close>

text \<open>
  The matcher backtracks as \<^verbatim>\<open>re\<close> does. \<open>digits_1_2\<close> lists the ways \<^verbatim>\<open>\d{1,2}\<close> can
  match at the head of a string, the greedy one first; \<open>first_match\<close> takes the first
  alternative under which the rest of the pattern matches.
\<close>

fun literal :: "string \<Rightarrow> string \<Rightarrow> string option" where
  "literal [] s = Some s"
| "literal (p # ps) [] = None"
| "literal (p # ps) (c # cs) = (if p = c then literal ps cs else None)"

fun digits_1_2 :: "string \<Rightarrow> (string \<times> string) list" where
  "digits_1_2 [] = []"
| "digits_1_2 [a] = (if isdigit a then [([a], [])] else [])"
| "digits_1_2 (a # b # r) =
     (if isdigit a
      then (if isdigit b then [([a, b], r)] else []) @ [([a], b # r)]
      else [])"

fun digits_2 :: "string \<Rightarrow> (string \<times> string) option" where
  "digits_2 (a # b # r) = (if isdigit a \<and> isdigit b then Some ([a, b], r) else None)"
| "digits_2 _ = None"

fun first_match :: "('a \<Rightarrow> 'b option) \<Rightarrow> 'a list \<Rightarrow> 'b option" where
  "first_match f [] = None"
| "first_match f (x # xs) = (case f x of Some y \<Rightarrow> Some y | None \<Rightarrow> first_match f xs)"

text \<open>
  Without the \<^verbatim>\<open>MULTILINE\<close> flag, \<^verbatim>\<open>$\<close> matches at the end of the string and also just
  before a newline that is the last character of the string.
\<close>

definition at_dollar :: "string \<Rightarrow> bool" where
  "at_dollar s = (s = [] \<or> s = [newline])"

definition match_tail :: "string \<Rightarrow> string \<Rightarrow> string \<Rightarrow> (string \<times> string \<times> string) option" where
  "match_tail mm dd s =
     (case literal ''-'' s of None \<Rightarrow> None
      | Some s1 \<Rightarrow>
     (case digits_2 s1 of None \<Rightarrow> None
      | Some (yy, s2) \<Rightarrow>
     (case literal ''.html'' s2 of None \<Rightarrow> None
      | Some s3 \<Rightarrow> if at_dollar s3 then Some (mm, dd, yy) else None)))"

definition match_day :: "string \<Rightarrow> string \<Rightarrow> (string \<times> string \<times> string) option" where
  "match_day mm s =
     (case literal ''-'' s of None \<Rightarrow> None
      | Some s1 \<Rightarrow> first_match (\<lambda>(dd, s2). match_tail mm dd s2) (digits_1_2 s1))"

definition match_at :: "string \<Rightarrow> (string \<times> string \<times> string) option" where
  "match_at s =
     (case literal ''_'' s of None \<Rightarrow> None
      | Some s1 \<Rightarrow> first_match (\<lambda>(mm, s2). match_day mm s2) (digits_1_2 s1))"

text \<open>\<^verbatim>\<open>re.search\<close> tries every start position from the left and keeps the first match.\<close>

fun re_search :: "string \<Rightarrow> (string \<times> string \<times> string) option" where
  "re_search [] = match_at []"
| "re_search (c # cs) =
     (case match_at (c # cs) of Some g \<Rightarrow> Some g | None \<Rightarrow> re_search cs)"

subsection \<open>\<^verbatim>\<open>extract_date_from_filename\<close>\<close>

text \<open>
  \<^verbatim>\<open>int(year)\<close> stands before the \<^verbatim>\<open>try\<close>, so an error there would leave the function;
  the \<^verbatim>\<open>ValueError\<close> of \<^verbatim>\<open>int(month)\<close>, \<^verbatim>\<open>int(day)\<close> and of the constructor is caught and
  turned into \<^verbatim>\<open>None\<close>. The groups \<^verbatim>\<open>month\<close>, \<^verbatim>\<open>day\<close> and \<^verbatim>\<open>year\<close> of the match are
  \<open>month_s\<close>, \<open>day_s\<close> and \<open>year_s\<close> here, the plain names being the fields of the date.
\<close>

definition extract_date_from_filename :: "string \<Rightarrow> exn + datetime option" where
  "extract_date_from_filename filename =
     (case re_search filename of
        None \<Rightarrow> Inr None
      | Some (month_s, day_s, year_s) \<Rightarrow>
         (case py_int year_s of
            Inl e \<Rightarrow> Inl e
          | Inr y \<Rightarrow>
             (let full_year = 2000 + y in
              (case py_int month_s of
                 Inl ValueError \<Rightarrow> Inr None
               | Inr m \<Rightarrow>
                  (case py_int day_s of
                     Inl ValueError \<Rightarrow> Inr None
                   | Inr d \<Rightarrow>
                      (case datetime_new full_year m d of
                         Inl ValueError \<Rightarrow> Inr None
                       | Inr date \<Rightarrow> Inr (Some date)))))))"

subsection \<open>The directory\<close>

text \<open>
  What the script sees of the file system: whether \<^verbatim>\<open>docs\<close> exists, and if so its entries
  in the order the operating system enumerates them, each with its content. \<^verbatim>\<open>docs\<close>, when
  it exists, is a directory, and \<^verbatim>\<open>files.json\<close>, when it exists, is a file that can be
  written; failures of the operating system itself are outside the model. The record is
  extensible: whatever else the world holds is carried along in its remaining fields.
\<close>

type_synonym directory = "(string \<times> string) list"

record world =
  docs :: "directory option"
  stdout :: string

definition print :: "string \<Rightarrow> 'a world_scheme \<Rightarrow> 'a world_scheme" where
  "print s w = w\<lparr>stdout := stdout w @ s @ [newline]\<rparr>"

definition read_text :: "string \<Rightarrow> 'a world_scheme \<Rightarrow> string option" where
  "read_text name w = (case docs w of None \<Rightarrow> None | Some entries \<Rightarrow> map_of entries name)"

text \<open>
  \<^verbatim>\<open>docs_dir.glob('*.html')\<close> yields, in enumeration order, the entries whose name ends
  in \<^verbatim>\<open>.html\<close>; the loop then takes the \<^verbatim>\<open>name\<close> of each.
\<close>

definition glob_html :: "string \<Rightarrow> bool" where
  "glob_html name = suffix ''.html'' name"

definition html_files :: "directory \<Rightarrow> string list" where
  "html_files entries = filter glob_html (map fst entries)"

subsection \<open>Classifying and ordering\<close>

text \<open>
  The loop of \<^verbatim>\<open>main\<close> over the names. A \<^verbatim>\<open>datetime\<close> is always true in a condition, so
  \<^verbatim>\<open>if date\<close> separates a date from \<^verbatim>\<open>None\<close>. An exception of the call would leave
  the loop.
\<close>

fun classify ::
  "string list \<Rightarrow> (datetime \<times> string) list \<Rightarrow> string list \<Rightarrow>
     exn + ((datetime \<times> string) list \<times> string list)" where
  "classify [] files_with_dates files_without_dates =
     Inr (files_with_dates, files_without_dates)"
| "classify (filename # rest) files_with_dates files_without_dates =
     (case extract_date_from_filename filename of
        Inl e \<Rightarrow> Inl e
      | Inr (Some date) \<Rightarrow>
          classify rest (files_with_dates @ [(date, filename)]) files_without_dates
      | Inr None \<Rightarrow>
          classify rest files_with_dates (files_without_dates @ [filename]))"

text \<open>
  \<^verbatim>\<open>files_with_dates.sort(key=lambda x: x[0], reverse=True)\<close>: the list is reversed,
  sorted by a stable sort in ascending order of the keys, and reversed again.
\<close>

definition sort_newest_first :: "(datetime \<times> string) list \<Rightarrow> (datetime \<times> string) list" where
  "sort_newest_first xs = rev (sort_key (\<lambda>x. date_key (fst x)) (rev xs))"

definition sorted_filenames :: "(datetime \<times> string) list \<Rightarrow> string list \<Rightarrow> string list" where
  "sorted_filenames files_with_dates files_without_dates =
     map snd (sort_newest_first files_with_dates) @ sort files_without_dates"

subsection \<open>\<^verbatim>\<open>json.dump(sorted_filenames, f, indent=2)\<close>\<close>

text \<open>
  With the default \<^verbatim>\<open>ensure_ascii\<close>, a string is written between double quotes with the
  quote and the backslash escaped, the control characters as their short escapes or as
  \<^verbatim>\<open>\u00XX\<close>, and everything above \<^verbatim>\<open>~\<close> as \<^verbatim>\<open>\u00XX\<close> too. An empty list is
  \<^verbatim>\<open>[]\<close>; the items of another are put on lines of their own, indented by two blanks.
\<close>

definition hex_digit :: "nat \<Rightarrow> char" where
  "hex_digit n = ''0123456789abcdef'' ! (n mod 16)"

definition escape_char :: "char \<Rightarrow> string" where
  "escape_char c =
     (if c = CHR 0x22 then [CHR 0x5C, CHR 0x22]
      else if c = CHR 0x5C then [CHR 0x5C, CHR 0x5C]
      else if c = CHR 0x08 then [CHR 0x5C, CHR ''b'']
      else if c = CHR 0x0C then [CHR 0x5C, CHR ''f'']
      else if c = CHR 0x0A then [CHR 0x5C, CHR ''n'']
      else if c = CHR 0x0D then [CHR 0x5C, CHR ''r'']
      else if c = CHR 0x09 then [CHR 0x5C, CHR ''t'']
      else if (of_char c :: nat) < 0x20 \<or> 0x7E < (of_char c :: nat)
        then [CHR 0x5C, CHR ''u'', CHR ''0'', CHR ''0'',
              hex_digit (of_char c div 16), hex_digit (of_char c mod 16)]
      else [c])"

definition encode_string :: "string \<Rightarrow> string" where
  "encode_string s = [CHR 0x22] @ concat (map escape_char s) @ [CHR 0x22]"

fun join :: "string \<Rightarrow> string list \<Rightarrow> string" where
  "join sep [] = []"
| "join sep [x] = x"
| "join sep (x # y # ys) = x @ sep @ join sep (y # ys)"

definition json_dump :: "string list \<Rightarrow> string" where
  "json_dump xs =
     (if xs = [] then ''[]''
      else ''['' @ [newline] @ ''  ''
           @ join ('','' @ [newline] @ ''  '') (map encode_string xs)
           @ [newline] @ '']'')"

subsection \<open>\<^verbatim>\<open>main\<close>\<close>

fun str_of_nat :: "nat \<Rightarrow> string" where
  "str_of_nat n =
     (if n < 10 then [char_of (48 + n)]
      else str_of_nat (n div 10) @ [char_of (48 + n mod 10)])"

text \<open>The check mark U+2713 that opens the summary, as the three bytes of its UTF-8 form.\<close>

definition check_mark :: string where
  "check_mark = [CHR 0xE2, CHR 0x9C, CHR 0x93]"

definition print_summary ::
  "string list \<Rightarrow> nat \<Rightarrow> nat \<Rightarrow> 'a world_scheme \<Rightarrow> 'a world_scheme" where
  "print_summary names n_dated n_undated w =
     (let w1 = print (check_mark @ '' Generated docs/files.json'') w;
          w2 = print (''  Total files: '' @ str_of_nat (length names)) w1;
          w3 = print (''  Dated files: '' @ str_of_nat n_dated) w2;
          w4 = print (''  Undated files: '' @ str_of_nat n_undated) w3
      in if names \<noteq> []
         then (let w5 = print ([newline] @ ''Newest file: '' @ hd names) w4
               in if 1 < length names then print (''Oldest file: '' @ last names) w5
                  else w5)
         else w4)"

text \<open>
  \<^verbatim>\<open>main\<close> returns the world it leaves behind, or the exception that left it. Opening
  \<^verbatim>\<open>docs/files.json\<close> for writing creates the entry or replaces its content.
\<close>

definition main :: "'a world_scheme \<Rightarrow> exn + 'a world_scheme" where
  "main w =
     (case docs w of
        None \<Rightarrow> Inr (print ''Error: docs directory not found'' w)
      | Some entries \<Rightarrow>
         (case classify (html_files entries) [] [] of
            Inl e \<Rightarrow> Inl e
          | Inr (files_with_dates, files_without_dates) \<Rightarrow>
             (let names = sorted_filenames files_with_dates files_without_dates;
                  w1 = w\<lparr>docs := Some (AList.update ''files.json'' (json_dump names) entries)\<rparr>
              in Inr (print_summary names (length files_with_dates)
                        (length files_without_dates) w1))))"

text \<open>
  The script calls \<^verbatim>\<open>main()\<close> and ends: the exit status is 0 when \<^verbatim>\<open>main\<close> returns and 1
  when an exception leaves it.
\<close>

definition script :: "'a world_scheme \<Rightarrow> nat \<times> 'a world_scheme" where
  "script w = (case main w of Inr w' \<Rightarrow> (0, w') | Inl e \<Rightarrow> (1, w))"

subsection \<open>Notions of the specification\<close>

text \<open>
  The date suffix \<^verbatim>\<open>_MM-DD-YY.html\<close>: an underscore, one or two digits, a hyphen, one or
  two digits, a hyphen, exactly two digits, and \<^verbatim>\<open>.html\<close>.
\<close>

definition one_or_two_digits :: "string \<Rightarrow> bool" where
  "one_or_two_digits s = (list_all isdigit s \<and> (length s = 1 \<or> length s = 2))"

definition two_digits :: "string \<Rightarrow> bool" where
  "two_digits s = (list_all isdigit s \<and> length s = 2)"

definition date_suffix :: "string \<Rightarrow> string \<Rightarrow> string \<Rightarrow> string" where
  "date_suffix mm dd yy = ''_'' @ mm @ ''-'' @ dd @ ''-'' @ yy @ ''.html''"

text \<open>
  A date of the Gregorian calendar: April, June, September and November have 30 days,
  February has 28, or 29 in a leap year, every other month has 31; a year is a leap year
  when 4 divides it, unless 100 divides it and 400 does not.
\<close>

definition month_length :: "int \<Rightarrow> int \<Rightarrow> int" where
  "month_length y m =
     (if m \<in> {4, 6, 9, 11} then 30
      else if m = 2 then (if y mod 4 = 0 \<and> (y mod 100 \<noteq> 0 \<or> y mod 400 = 0) then 29 else 28)
      else 31)"

definition valid_calendar_date :: "int \<Rightarrow> int \<Rightarrow> int \<Rightarrow> bool" where
  "valid_calendar_date y m d = (1 \<le> m \<and> m \<le> 12 \<and> 1 \<le> d \<and> d \<le> month_length y m)"

text \<open>
  The date \<^verbatim>\<open>extract_date_from_filename\<close> finds in a name, if any, and the names
  \<^verbatim>\<open>main\<close> writes for a listing: its loop followed by its two sorts. The branches for
  an exception are never taken: the function always returns (\<open>extract_name_date\<close> and
  \<open>classify_eq\<close> below).
\<close>

definition name_date :: "string \<Rightarrow> datetime option" where
  "name_date n = (case extract_date_from_filename n of Inr r \<Rightarrow> r | Inl e \<Rightarrow> None)"

text \<open>The sort key of a name that carries a date.\<close>

definition name_key :: "string \<Rightarrow> int \<times> int \<times> int" where
  "name_key n = date_key (the (name_date n))"

definition manifest_of :: "string list \<Rightarrow> string list" where
  "manifest_of names =
     (case classify names [] [] of
        Inr (files_with_dates, files_without_dates) \<Rightarrow>
          sorted_filenames files_with_dates files_without_dates
      | Inl e \<Rightarrow> [])"

text \<open>
  The directory a run of \<^verbatim>\<open>main\<close> leaves behind, and the content of \<^verbatim>\<open>files.json\<close> in
  it: \<open>None\<close> when there is no directory, or no such file in it.
\<close>

definition after_main :: "'a world_scheme \<Rightarrow> directory option" where
  "after_main w = (case main w of Inr w' \<Rightarrow> docs w' | Inl e \<Rightarrow> None)"

definition written :: "'a world_scheme \<Rightarrow> string option" where
  "written w = (case after_main w of None \<Rightarrow> None | Some entries \<Rightarrow> map_of entries ''files.json'')"

section \<open>Properties\<close>

subsection \<open>The matcher\<close>

text \<open>
  Whatever the matcher accepts at a position has the shape of the suffix, followed by
  what \<^verbatim>\<open>$\<close> allows.
\<close>

lemma literal_Some: "literal p s = Some r \<longleftrightarrow> s = p @ r"
  by (induction p s rule: literal.induct) auto

lemma first_match_Some:
  "first_match f xs = Some y \<Longrightarrow> \<exists>x \<in> set xs. f x = Some y"
  by (induction xs) (auto split: option.splits)

lemma digits_1_2_sound:
  "(m, r) \<in> set (digits_1_2 s) \<Longrightarrow> s = m @ r \<and> one_or_two_digits m"
  by (induction s rule: digits_1_2.induct) (auto simp: one_or_two_digits_def split: if_splits)

lemma digits_2_sound:
  "digits_2 s = Some (y, r) \<Longrightarrow> s = y @ r \<and> two_digits y"
  by (induction s rule: digits_2.induct) (auto simp: two_digits_def split: if_splits)

lemma match_tail_sound:
  assumes "match_tail mm dd s = Some g"
  shows "\<exists>yy e. g = (mm, dd, yy) \<and> s = ''-'' @ yy @ ''.html'' @ e \<and> two_digits yy \<and> at_dollar e"
  using assms unfolding match_tail_def
  by (auto simp: literal_Some split: option.splits if_splits dest!: digits_2_sound)

lemma match_day_sound:
  assumes "match_day mm s = Some g"
  shows "\<exists>dd yy e. g = (mm, dd, yy) \<and> s = ''-'' @ dd @ ''-'' @ yy @ ''.html'' @ e
           \<and> one_or_two_digits dd \<and> two_digits yy \<and> at_dollar e"
proof -
  from assms obtain s1 where s1: "s = ''-'' @ s1"
    and fm: "first_match (\<lambda>(dd, s2). match_tail mm dd s2) (digits_1_2 s1) = Some g"
    unfolding match_day_def by (auto simp: literal_Some split: option.splits)
  from first_match_Some[OF fm] obtain dd s2 where
    mem: "(dd, s2) \<in> set (digits_1_2 s1)" and mt: "match_tail mm dd s2 = Some g"
    by auto
  from digits_1_2_sound[OF mem] match_tail_sound[OF mt] s1 show ?thesis
    by auto
qed

lemma match_at_sound:
  assumes "match_at s = Some g"
  shows "\<exists>mm dd yy e. g = (mm, dd, yy) \<and> s = date_suffix mm dd yy @ e
           \<and> one_or_two_digits mm \<and> one_or_two_digits dd \<and> two_digits yy \<and> at_dollar e"
proof -
  from assms obtain s1 where s1: "s = ''_'' @ s1"
    and fm: "first_match (\<lambda>(mm, s2). match_day mm s2) (digits_1_2 s1) = Some g"
    unfolding match_at_def by (auto simp: literal_Some split: option.splits)
  from first_match_Some[OF fm] obtain mm s2 where
    mem: "(mm, s2) \<in> set (digits_1_2 s1)" and mt: "match_day mm s2 = Some g"
    by auto
  from digits_1_2_sound[OF mem] match_day_sound[OF mt] s1 show ?thesis
    by (auto simp: date_suffix_def)
qed

text \<open>
  Conversely the matcher accepts every string of that shape: a hyphen follows the
  digits, so the greedy alternative of \<^verbatim>\<open>\d{1,2}\<close> is the one that fits.
\<close>

lemma not_isdigit_hyphen: "\<not> isdigit CHR ''-''"
  by (simp add: isdigit_def)

lemma first_match_digits:
  assumes "one_or_two_digits m" and "\<not> isdigit c" and "f (m, c # r) = Some y"
  shows "first_match f (digits_1_2 (m @ c # r)) = Some y"
proof -
  from assms(1) consider a where "m = [a]" "isdigit a"
    | a b where "m = [a, b]" "isdigit a" "isdigit b"
    by (auto simp: one_or_two_digits_def length_Suc_conv numeral_2_eq_2)
  then show ?thesis
    using assms(2,3) by cases simp_all
qed

lemma match_tail_complete:
  assumes "two_digits yy" and "at_dollar e"
  shows "match_tail mm dd (''-'' @ yy @ ''.html'' @ e) = Some (mm, dd, yy)"
proof -
  from assms(1) obtain a b where yy: "yy = [a, b]" "isdigit a" "isdigit b"
    by (auto simp: two_digits_def length_Suc_conv numeral_2_eq_2)
  show ?thesis
    using assms(2) by (simp add: match_tail_def yy)
qed

lemma match_day_complete:
  assumes "one_or_two_digits dd" and "two_digits yy" and "at_dollar e"
  shows "match_day mm (''-'' @ dd @ ''-'' @ yy @ ''.html'' @ e) = Some (mm, dd, yy)"
proof -
  have "first_match (\<lambda>(dd, s2). match_tail mm dd s2)
          (digits_1_2 (dd @ CHR ''-'' # (yy @ ''.html'' @ e))) = Some (mm, dd, yy)"
    using match_tail_complete[OF assms(2,3), of mm dd]
    by (intro first_match_digits[OF assms(1) not_isdigit_hyphen]) simp
  then show ?thesis
    by (simp add: match_day_def)
qed

lemma match_at_complete:
  assumes "one_or_two_digits mm" and "one_or_two_digits dd" and "two_digits yy"
    and "at_dollar e"
  shows "match_at (date_suffix mm dd yy @ e) = Some (mm, dd, yy)"
proof -
  have "first_match (\<lambda>(mm, s2). match_day mm s2)
          (digits_1_2 (mm @ CHR ''-'' # (dd @ ''-'' @ yy @ ''.html'' @ e))) = Some (mm, dd, yy)"
    using match_day_complete[OF assms(2,3,4), of mm]
    by (intro first_match_digits[OF assms(1) not_isdigit_hyphen]) simp
  then show ?thesis
    by (simp add: match_at_def date_suffix_def)
qed

text \<open>
  A match holds no underscore after its first character, so no earlier start position
  can match a string that ends with the suffix: the search finds exactly that suffix.
\<close>

lemma no_underscore_in_digits: "list_all isdigit s \<Longrightarrow> CHR ''_'' \<notin> set s"
  by (auto simp: list_all_iff isdigit_def)

lemma match_at_no_underscore:
  assumes "match_at s = Some g"
  shows "CHR ''_'' \<notin> set (tl s)"
proof -
  from match_at_sound[OF assms] obtain mm dd yy e where
    s: "s = date_suffix mm dd yy @ e" and d: "one_or_two_digits mm" "one_or_two_digits dd"
      "two_digits yy" and e: "at_dollar e"
    by blast
  have "CHR ''_'' \<notin> set mm" "CHR ''_'' \<notin> set dd" "CHR ''_'' \<notin> set yy"
    using d by (simp_all add: one_or_two_digits_def two_digits_def no_underscore_in_digits)
  moreover have "CHR ''_'' \<notin> set e"
    using e by (auto simp: at_dollar_def newline_def)
  ultimately show ?thesis
    by (simp add: s date_suffix_def)
qed

lemma re_search_complete:
  assumes "one_or_two_digits mm" and "one_or_two_digits dd" and "two_digits yy"
    and "at_dollar e"
  shows "re_search (p @ date_suffix mm dd yy @ e) = Some (mm, dd, yy)"
proof (induction p)
  case Nil
  have "date_suffix mm dd yy @ e = CHR ''_'' # tl (date_suffix mm dd yy @ e)"
    by (simp add: date_suffix_def)
  then show ?case
    using match_at_complete[OF assms] by (metis append_Nil option.simps(5) re_search.simps(2))
next
  case (Cons c p)
  have "CHR ''_'' \<in> set (tl (c # p @ date_suffix mm dd yy @ e))"
    by (simp add: date_suffix_def)
  then have "match_at (c # p @ date_suffix mm dd yy @ e) = None"
    using match_at_no_underscore by (cases "match_at (c # p @ date_suffix mm dd yy @ e)") blast+
  then show ?case
    using Cons.IH by simp
qed

lemma re_search_sound:
  assumes "re_search s = Some g"
  shows "\<exists>p mm dd yy e. g = (mm, dd, yy) \<and> s = p @ date_suffix mm dd yy @ e
           \<and> one_or_two_digits mm \<and> one_or_two_digits dd \<and> two_digits yy \<and> at_dollar e"
  using assms
proof (induction s)
  case Nil
  then show ?case
    using match_at_sound[of "[]" g] by (simp add: date_suffix_def)
next
  case (Cons c s)
  show ?case
  proof (cases "match_at (c # s)")
    case None
    with Cons.prems have "re_search s = Some g" by simp
    from Cons.IH[OF this] obtain p mm dd yy e where
      "g = (mm, dd, yy)" "s = p @ date_suffix mm dd yy @ e" "one_or_two_digits mm"
      "one_or_two_digits dd" "two_digits yy" "at_dollar e"
      by blast
    then have "g = (mm, dd, yy) \<and> c # s = (c # p) @ date_suffix mm dd yy @ e
        \<and> one_or_two_digits mm \<and> one_or_two_digits dd \<and> two_digits yy \<and> at_dollar e"
      by simp
    then show ?thesis by blast
  next
    case (Some h)
    with Cons.prems have "match_at (c # s) = Some g" by simp
    from match_at_sound[OF this] show ?thesis
      by (metis append_Nil)
  qed
qed


subsection \<open>Numbers, dates and \<^verbatim>\<open>extract_date_from_filename\<close>\<close>

lemma digit_value_range: "isdigit c \<Longrightarrow> 0 \<le> digit_value c \<and> digit_value c \<le> 9"
  by (auto simp: isdigit_def digit_value_def)

lemma decimal_two_digits:
  assumes "two_digits s"
  shows "0 \<le> decimal s \<and> decimal s \<le> 99"
proof -
  from assms obtain a b where s: "s = [a, b]" and "isdigit a" and "isdigit b"
    by (auto simp: two_digits_def length_Suc_conv numeral_2_eq_2)
  then have "0 \<le> digit_value a \<and> digit_value a \<le> 9" "0 \<le> digit_value b \<and> digit_value b \<le> 9"
    by (simp_all add: digit_value_range)
  moreover have "decimal s = 10 * digit_value a + digit_value b"
    by (simp add: s decimal_def)
  ultimately show ?thesis by arith
qed

lemma py_int_digits: "list_all isdigit s \<Longrightarrow> s \<noteq> [] \<Longrightarrow> py_int s = Inr (decimal s)"
  by (simp add: py_int_def)

lemma py_int_one_or_two: "one_or_two_digits s \<Longrightarrow> py_int s = Inr (decimal s)"
  by (rule py_int_digits) (auto simp: one_or_two_digits_def)

lemma py_int_two: "two_digits s \<Longrightarrow> py_int s = Inr (decimal s)"
  by (rule py_int_digits) (auto simp: two_digits_def)

lemma days_in_month_eq:
  assumes "1 \<le> m" and "m \<le> 12"
  shows "days_in_month y m = month_length y m"
proof -
  from assms have "m = 1 \<or> m = 2 \<or> m = 3 \<or> m = 4 \<or> m = 5 \<or> m = 6 \<or> m = 7 \<or> m = 8
      \<or> m = 9 \<or> m = 10 \<or> m = 11 \<or> m = 12"
    by arith
  then show ?thesis
    by (elim disjE) (simp_all add: days_in_month_def month_length_def is_leap_def)
qed

lemma datetime_new_valid:
  assumes "1 \<le> y" and "y \<le> 9999"
  shows "datetime_new y m d =
    (if valid_calendar_date y m d then Inr \<lparr>year = y, month = m, day = d\<rparr> else Inl ValueError)"
  using assms days_in_month_eq[of m y]
  by (auto simp: datetime_new_def valid_calendar_date_def)

lemma extract_of_groups:
  assumes "re_search s = Some (mm, dd, yy)"
    and "one_or_two_digits mm" and "one_or_two_digits dd" and "two_digits yy"
  shows "extract_date_from_filename s =
    (if valid_calendar_date (2000 + decimal yy) (decimal mm) (decimal dd)
     then Inr (Some \<lparr>year = 2000 + decimal yy, month = decimal mm, day = decimal dd\<rparr>)
     else Inr None)"
proof -
  have "1 \<le> 2000 + decimal yy" "2000 + decimal yy \<le> 9999"
    using decimal_two_digits[OF assms(4)] by auto
  from datetime_new_valid[OF this] show ?thesis
    by (simp add: extract_date_from_filename_def assms(1) py_int_one_or_two[OF assms(2)]
        py_int_one_or_two[OF assms(3)] py_int_two[OF assms(4)])
qed

lemma extract_date_suffix:
  assumes "one_or_two_digits mm" and "one_or_two_digits dd" and "two_digits yy"
    and "at_dollar e"
  shows "extract_date_from_filename (p @ date_suffix mm dd yy @ e) =
    (if valid_calendar_date (2000 + decimal yy) (decimal mm) (decimal dd)
     then Inr (Some \<lparr>year = 2000 + decimal yy, month = decimal mm, day = decimal dd\<rparr>)
     else Inr None)"
  by (rule extract_of_groups[OF re_search_complete[OF assms] assms(1,2,3)])

lemma extract_cases:
  "extract_date_from_filename s = Inr None \<or>
   (\<exists>p mm dd yy e. s = p @ date_suffix mm dd yy @ e
      \<and> one_or_two_digits mm \<and> one_or_two_digits dd \<and> two_digits yy \<and> at_dollar e
      \<and> valid_calendar_date (2000 + decimal yy) (decimal mm) (decimal dd)
      \<and> extract_date_from_filename s =
          Inr (Some \<lparr>year = 2000 + decimal yy, month = decimal mm, day = decimal dd\<rparr>))"
proof (cases "re_search s")
  case None
  then show ?thesis by (simp add: extract_date_from_filename_def)
next
  case (Some g)
  from re_search_sound[OF Some] obtain p mm dd yy e where
    g: "g = (mm, dd, yy)" and s: "s = p @ date_suffix mm dd yy @ e"
    and d: "one_or_two_digits mm" "one_or_two_digits dd" "two_digits yy" and e: "at_dollar e"
    by blast
  from Some g have "re_search s = Some (mm, dd, yy)" by simp
  from extract_of_groups[OF this d] show ?thesis
  proof (cases "valid_calendar_date (2000 + decimal yy) (decimal mm) (decimal dd)")
    case True
    with \<open>extract_date_from_filename s = _\<close> s d e show ?thesis
      by (intro disjI2 exI[of _ p] exI[of _ mm] exI[of _ dd] exI[of _ yy] exI[of _ e]) simp
  next
    case False
    with \<open>extract_date_from_filename s = _\<close> show ?thesis by simp
  qed
qed

lemma extract_returns: "\<exists>r. extract_date_from_filename s = Inr r"
  using extract_cases[of s] by auto

lemma extract_name_date: "extract_date_from_filename s = Inr (name_date s)"
  using extract_returns[of s] by (auto simp: name_date_def)


subsection \<open>The loop and the two sorts\<close>

text \<open>
  The loop never raises; it splits the names into those with a date, paired with it,
  and those without, each group in the order of the listing.
\<close>

lemma classify_eq:
  "classify names wd wod =
     Inr (wd @ map (\<lambda>n. (the (name_date n), n)) (filter (\<lambda>n. name_date n \<noteq> None) names),
          wod @ filter (\<lambda>n. name_date n = None) names)"
proof (induction names arbitrary: wd wod)
  case Nil
  then show ?case by simp
next
  case (Cons n names)
  show ?case
    by (cases "name_date n") (simp_all add: extract_name_date Cons.IH)
qed

lemma insort_key_map:
  "insort_key f (g x) (map g xs) = map g (insort_key (\<lambda>a. f (g a)) x xs)"
  by (induction xs) simp_all

lemma sort_key_map: "sort_key f (map g xs) = map g (sort_key (\<lambda>a. f (g a)) xs)"
  by (induction xs) (simp_all add: insort_key_map)

lemma manifest_of_eq:
  "manifest_of names =
     rev (sort_key name_key (rev (filter (\<lambda>n. name_date n \<noteq> None) names)))
     @ sort (filter (\<lambda>n. name_date n = None) names)"
proof -
  have "map snd (sort_newest_first (map (\<lambda>n. (the (name_date n), n)) xs))
          = rev (sort_key name_key (rev xs))" for xs
  proof -
    have "sort_key (\<lambda>x. date_key (fst x)) (map (\<lambda>n. (the (name_date n), n)) (rev xs))
            = map (\<lambda>n. (the (name_date n), n)) (sort_key name_key (rev xs))"
      using sort_key_map[of "\<lambda>x. date_key (fst x)" "\<lambda>n. (the (name_date n), n)" "rev xs"]
      by (simp add: name_key_def[abs_def])
    then show ?thesis
      by (simp add: sort_newest_first_def rev_map o_def)
  qed
  then show ?thesis
    by (simp add: manifest_of_def classify_eq sorted_filenames_def)
qed


lemma mset_manifest_of: "mset (manifest_of names) = mset names"
  by (simp add: manifest_of_eq)

lemma name_date_manifest_dated:
  "filter (\<lambda>n. name_date n \<noteq> None) (manifest_of names) =
     rev (sort_key name_key (rev (filter (\<lambda>n. name_date n \<noteq> None) names)))"
proof -
  have "set (sort (filter (\<lambda>n. name_date n = None) names)) \<subseteq> {n. name_date n = None}"
    by auto
  then have "filter (\<lambda>n. name_date n \<noteq> None) (sort (filter (\<lambda>n. name_date n = None) names)) = []"
    by (auto simp: filter_empty_conv)
  moreover have "filter (\<lambda>n. name_date n \<noteq> None)
      (rev (sort_key name_key (rev (filter (\<lambda>n. name_date n \<noteq> None) names))))
      = rev (sort_key name_key (rev (filter (\<lambda>n. name_date n \<noteq> None) names)))"
    by (rule filter_True) auto
  ultimately show ?thesis
    by (simp add: manifest_of_eq)
qed

lemma name_date_manifest_undated:
  "filter (\<lambda>n. name_date n = None) (manifest_of names) =
     sort (filter (\<lambda>n. name_date n = None) names)"
proof -
  have "filter (\<lambda>n. name_date n = None)
      (rev (sort_key name_key (rev (filter (\<lambda>n. name_date n \<noteq> None) names)))) = []"
    by (auto simp: filter_empty_conv)
  moreover have "filter (\<lambda>n. name_date n = None) (sort (filter (\<lambda>n. name_date n = None) names))
      = sort (filter (\<lambda>n. name_date n = None) names)"
    by (rule filter_True) auto
  ultimately show ?thesis
    by (simp add: manifest_of_eq)
qed

lemma manifest_of_split:
  "manifest_of names = filter (\<lambda>n. name_date n \<noteq> None) (manifest_of names)
     @ filter (\<lambda>n. name_date n = None) (manifest_of names)"
  unfolding name_date_manifest_dated name_date_manifest_undated by (rule manifest_of_eq)

lemma map_filter_name_date:
  "map date_key (List.map_filter name_date xs) = map name_key (filter (\<lambda>n. name_date n \<noteq> None) xs)"
  by (simp add: List.map_filter_def name_key_def[abs_def] o_def)

lemma manifest_of_dates_descending:
  "sorted (rev (map date_key (List.map_filter name_date (manifest_of names))))"
  unfolding map_filter_name_date name_date_manifest_dated by (simp add: rev_map)

lemma manifest_of_undated_ascending:
  "sorted (filter (\<lambda>n. name_date n = None) (manifest_of names))"
  by (simp add: name_date_manifest_undated)

lemma date_key_eq_iff: "date_key a = date_key b \<longleftrightarrow> a = b"
  by (auto simp: date_key_def)

lemma manifest_of_stable:
  "filter (\<lambda>n. name_date n = Some d) (manifest_of names) = filter (\<lambda>n. name_date n = Some d) names"
proof -
  let ?D = "filter (\<lambda>n. name_date n \<noteq> None) names"
  have eq: "(name_date n = Some d) = (name_date n \<noteq> None \<and> name_key n = date_key d)" for n
    by (cases "name_date n") (simp_all add: name_key_def date_key_eq_iff)
  have "filter (\<lambda>n. name_date n = Some d) (manifest_of names)
      = filter (\<lambda>n. name_key n = date_key d) (filter (\<lambda>n. name_date n \<noteq> None) (manifest_of names))"
    by (simp only: eq filter_filter)
  also have "\<dots> = rev (filter (\<lambda>n. name_key n = date_key d) (sort_key name_key (rev ?D)))"
    by (simp only: name_date_manifest_dated rev_filter)
  also have "\<dots> = rev (filter (\<lambda>n. name_key n = date_key d) (rev ?D))"
    by (simp only: sort_key_stable)
  also have "\<dots> = filter (\<lambda>n. name_key n = date_key d) ?D"
    by (simp only: rev_filter rev_rev_ident)
  also have "\<dots> = filter (\<lambda>n. name_date n = Some d) names"
    by (simp only: eq filter_filter)
  finally show ?thesis .
qed


subsection \<open>What \<^verbatim>\<open>main\<close> leaves behind\<close>

lemma docs_print [simp]: "docs (print s w) = docs w"
  by (simp add: print_def)

lemma docs_print_summary [simp]: "docs (print_summary names a b w) = docs w"
  by (simp add: print_summary_def Let_def)

lemma read_text_print_summary [simp]:
  "read_text name (print_summary names a b w) = read_text name w"
  by (simp add: read_text_def)

lemma main_missing:
  "docs w = None \<Longrightarrow> main w = Inr (w\<lparr>stdout := stdout w @ ''Error: docs directory not found'' @ [newline]\<rparr>)"
  by (simp add: main_def print_def)

lemma main_existing:
  assumes "docs w = Some entries"
  shows "main w = Inr (print_summary (manifest_of (html_files entries))
           (length (filter (\<lambda>n. name_date n \<noteq> None) (html_files entries)))
           (length (filter (\<lambda>n. name_date n = None) (html_files entries)))
           (w\<lparr>docs := Some (AList.update ''files.json''
                (json_dump (manifest_of (html_files entries))) entries)\<rparr>))"
  by (simp add: main_def assms classify_eq manifest_of_def Let_def)

lemma main_writes:
  assumes "docs w = Some entries"
  shows "\<exists>w'. main w = Inr w'
    \<and> docs w' = Some (AList.update ''files.json'' (json_dump (manifest_of (html_files entries))) entries)
    \<and> read_text ''files.json'' w' = Some (json_dump (manifest_of (html_files entries)))"
  by (simp add: main_existing[OF assms] read_text_def update_conv')

lemma main_returns: "\<exists>w'. main w = Inr w'"
  by (cases "docs w") (auto simp: main_missing dest: main_writes)

lemma script_exit: "fst (script w) = 0"
  using main_returns[of w] by (auto simp: script_def)

lemma not_glob_files_json: "\<not> glob_html ''files.json''"
  by (simp add: glob_html_def suffix_def)

lemma html_files_update:
  "\<not> glob_html name \<Longrightarrow> html_files (AList.update name text entries) = html_files entries"
  by (induction entries) (auto simp: html_files_def)

section \<open>The claims\<close>

subsection \<open>Names with a date\<close>

text \<open>
  C2. A filename that ends with an underscore, one or two digits, a hyphen, one or two
  digits, a hyphen, exactly two digits and \<^verbatim>\<open>.html\<close>, and whose numbers form a date of
  the calendar, yields the date with year \<open>2000 + YY\<close>, month \<open>MM\<close> and day \<open>DD\<close>,
  whatever stands before the suffix.
\<close>

theorem extract_valid_date:
  assumes "one_or_two_digits mm" and "one_or_two_digits dd" and "two_digits yy"
    and "valid_calendar_date (2000 + decimal yy) (decimal mm) (decimal dd)"
  shows "extract_date_from_filename (p @ date_suffix mm dd yy) =
    Inr (Some \<lparr>year = 2000 + decimal yy, month = decimal mm, day = decimal dd\<rparr>)"
proof -
  have "at_dollar []" by (simp add: at_dollar_def)
  from extract_date_suffix[OF assms(1,2,3) this, of p] assms(4) show ?thesis
    by simp
qed

theorem extract_valid_date_witness:
  "one_or_two_digits ''1'' \<and> one_or_two_digits ''15'' \<and> two_digits ''24''
   \<and> valid_calendar_date (2000 + decimal ''24'') (decimal ''1'') (decimal ''15'')
   \<and> extract_date_from_filename (''report'' @ date_suffix ''1'' ''15'' ''24'') =
       Inr (Some \<lparr>year = 2000 + decimal ''24'', month = decimal ''1'', day = decimal ''15''\<rparr>)
   \<and> ''report'' @ date_suffix ''1'' ''15'' ''24'' = ''report_1-15-24.html''
   \<and> 2000 + decimal ''24'' = 2024 \<and> decimal ''1'' = 1 \<and> decimal ''15'' = 15"
proof -
  have d: "one_or_two_digits ''1''" "one_or_two_digits ''15''" "two_digits ''24''"
    by (simp_all add: one_or_two_digits_def two_digits_def isdigit_def)
  have n: "decimal ''24'' = 24" "decimal ''1'' = 1" "decimal ''15'' = 15"
    by (simp_all add: decimal_def digit_value_def)
  have v: "valid_calendar_date (2000 + decimal ''24'') (decimal ''1'') (decimal ''15'')"
    by (simp add: n valid_calendar_date_def month_length_def)
  show ?thesis
    using d v extract_valid_date[OF d v, of "''report''"] by (simp add: n date_suffix_def)
qed

subsection \<open>Order of the manifest\<close>

text \<open>The order of the sort keys is the order of the dates in time.\<close>

lemma date_key_le_iff:
  "date_key a \<le> date_key b \<longleftrightarrow>
     year a < year b \<or> (year a = year b \<and> (month a < month b
       \<or> (month a = month b \<and> day a \<le> day b)))"
  by (auto simp: date_key_def less_eq_prod_def less_prod_def)

text \<open>
  C1. For every directory listing, the names \<^verbatim>\<open>main\<close> writes are the \<^verbatim>\<open>.html\<close> names of the
  listing, the dated ones first and the undated ones after them; the dates of the dated
  ones never increase along the list (newest first), and the undated ones stand in
  ascending lexicographic order.
\<close>

theorem manifest_order:
  assumes "docs w = Some entries"
  shows "\<exists>w' out. main w = Inr w'
    \<and> read_text ''files.json'' w' = Some (json_dump out)
    \<and> mset out = mset (html_files entries)
    \<and> out = filter (\<lambda>n. name_date n \<noteq> None) out @ filter (\<lambda>n. name_date n = None) out
    \<and> sorted_wrt (\<lambda>a b. date_key b \<le> date_key a) (List.map_filter name_date out)
    \<and> sorted (filter (\<lambda>n. name_date n = None) out)"
proof -
  let ?out = "manifest_of (html_files entries)"
  from main_writes[OF assms] obtain w' where
    w': "main w = Inr w'" "read_text ''files.json'' w' = Some (json_dump ?out)"
    by blast
  have "sorted_wrt (\<lambda>a b. b \<le> a) (map date_key (List.map_filter name_date ?out))"
    using manifest_of_dates_descending[of "html_files entries"]
    by (simp only: sorted_wrt_rev)
  then have desc: "sorted_wrt (\<lambda>a b. date_key b \<le> date_key a) (List.map_filter name_date ?out)"
    by (simp only: sorted_wrt_map)
  show ?thesis
    using w' mset_manifest_of[of "html_files entries"] manifest_of_split[of "html_files entries"]
      desc manifest_of_undated_ascending[of "html_files entries"]
    by blast
qed

theorem manifest_order_witness:
  "\<exists>w' out. main \<lparr>docs = Some [(''b.html'', ''x''), (''a_1-2-24.html'', ''y'')], stdout = []\<rparr> = Inr w'
    \<and> read_text ''files.json'' w' = Some (json_dump out)
    \<and> mset out = mset (html_files [(''b.html'', ''x''), (''a_1-2-24.html'', ''y'')])
    \<and> out = filter (\<lambda>n. name_date n \<noteq> None) out @ filter (\<lambda>n. name_date n = None) out
    \<and> sorted_wrt (\<lambda>a b. date_key b \<le> date_key a) (List.map_filter name_date out)
    \<and> sorted (filter (\<lambda>n. name_date n = None) out)"
  by (rule manifest_order) simp

text \<open>
  C10. The names that carry one and the same date stand in the manifest in the order in
  which the directory enumerated them: the sort by date is stable.
\<close>

theorem same_date_keeps_order:
  assumes "docs w = Some entries"
  shows "\<exists>w' out. main w = Inr w' \<and> read_text ''files.json'' w' = Some (json_dump out)
    \<and> (\<forall>d. filter (\<lambda>n. name_date n = Some d) out
              = filter (\<lambda>n. name_date n = Some d) (html_files entries))"
  using main_writes[OF assms] manifest_of_stable[of _ "html_files entries"]
  by blast

theorem same_date_keeps_order_witness:
  "\<exists>w' out. main \<lparr>docs = Some [(''b_1-2-24.html'', ''x''), (''a_01-02-24.html'', ''y'')], stdout = []\<rparr> = Inr w'
    \<and> read_text ''files.json'' w' = Some (json_dump out)
    \<and> (\<forall>d. filter (\<lambda>n. name_date n = Some d) out
              = filter (\<lambda>n. name_date n = Some d)
                  (html_files [(''b_1-2-24.html'', ''x''), (''a_01-02-24.html'', ''y'')]))"
  by (rule same_date_keeps_order) simp

subsection \<open>Names with a suffix that is no date\<close>

lemma glob_html_date_suffix: "glob_html (p @ date_suffix mm dd yy)"
  by (simp add: glob_html_def date_suffix_def suffix_def)

text \<open>
  C3. When the suffix has the shape \<^verbatim>\<open>_MM-DD-YY.html\<close> but its numbers are not a date of the
  calendar, \<^verbatim>\<open>extract_date_from_filename\<close> returns \<^verbatim>\<open>None\<close> without raising, the loop of
  \<^verbatim>\<open>main\<close> puts the name among the undated ones and not among the dated ones, and the
  name is in the manifest that \<^verbatim>\<open>main\<close> writes.
\<close>

theorem invalid_date_undated:
  assumes "one_or_two_digits mm" and "one_or_two_digits dd" and "two_digits yy"
    and "\<not> valid_calendar_date (2000 + decimal yy) (decimal mm) (decimal dd)"
    and "docs w = Some entries" and "p @ date_suffix mm dd yy \<in> fst ` set entries"
  shows "extract_date_from_filename (p @ date_suffix mm dd yy) = Inr None
    \<and> (\<exists>files_with_dates files_without_dates.
          classify (html_files entries) [] [] = Inr (files_with_dates, files_without_dates)
          \<and> p @ date_suffix mm dd yy \<in> set files_without_dates
          \<and> p @ date_suffix mm dd yy \<notin> snd ` set files_with_dates)
    \<and> (\<exists>w' out. main w = Inr w' \<and> read_text ''files.json'' w' = Some (json_dump out)
          \<and> p @ date_suffix mm dd yy \<in> set out)"
proof -
  let ?fn = "p @ date_suffix mm dd yy"
  have "at_dollar []" by (simp add: at_dollar_def)
  from extract_date_suffix[OF assms(1,2,3) this, of p] assms(4)
  have ex: "extract_date_from_filename ?fn = Inr None"
    by simp
  then have nd: "name_date ?fn = None"
    by (simp add: name_date_def)
  have mem: "?fn \<in> set (html_files entries)"
    using assms(6) glob_html_date_suffix by (auto simp: html_files_def)
  have cl: "?fn \<in> set (filter (\<lambda>n. name_date n = None) (html_files entries))"
    "?fn \<notin> snd ` set (map (\<lambda>n. (the (name_date n), n))
        (filter (\<lambda>n. name_date n \<noteq> None) (html_files entries)))"
    using mem nd by auto
  from main_writes[OF assms(5)] obtain w' where
    w': "main w = Inr w'"
      "read_text ''files.json'' w' = Some (json_dump (manifest_of (html_files entries)))"
    by blast
  have "set (manifest_of (html_files entries)) = set (html_files entries)"
    using mset_manifest_of[of "html_files entries"] by (rule mset_eq_setD)
  with mem have "?fn \<in> set (manifest_of (html_files entries))"
    by simp
  with w' have "\<exists>w' out. main w = Inr w' \<and> read_text ''files.json'' w' = Some (json_dump out)
      \<and> ?fn \<in> set out"
    by blast
  with ex cl show ?thesis
    by (simp add: classify_eq)
qed

theorem invalid_date_undated_witness:
  "extract_date_from_filename (''draft'' @ date_suffix ''02'' ''30'' ''24'') = Inr None
    \<and> (\<exists>files_with_dates files_without_dates.
          classify (html_files [(''draft_02-30-24.html'', ''x'')]) [] []
            = Inr (files_with_dates, files_without_dates)
          \<and> ''draft'' @ date_suffix ''02'' ''30'' ''24'' \<in> set files_without_dates
          \<and> ''draft'' @ date_suffix ''02'' ''30'' ''24'' \<notin> snd ` set files_with_dates)
    \<and> (\<exists>w' out. main \<lparr>docs = Some [(''draft_02-30-24.html'', ''x'')], stdout = []\<rparr> = Inr w'
          \<and> read_text ''files.json'' w' = Some (json_dump out)
          \<and> ''draft'' @ date_suffix ''02'' ''30'' ''24'' \<in> set out)"
proof -
  have d: "one_or_two_digits ''02''" "one_or_two_digits ''30''" "two_digits ''24''"
    by (simp_all add: one_or_two_digits_def two_digits_def isdigit_def)
  have n: "decimal ''24'' = 24" "decimal ''02'' = 2" "decimal ''30'' = 30"
    by (simp_all add: decimal_def digit_value_def)
  have v: "\<not> valid_calendar_date (2000 + decimal ''24'') (decimal ''02'') (decimal ''30'')"
    by (simp add: n valid_calendar_date_def month_length_def)
  show ?thesis
    by (rule invalid_date_undated[OF d v]) (simp_all add: date_suffix_def)
qed

subsection \<open>Names without the suffix\<close>

lemma dated_name_shape:
  assumes "name_date s = Some d"
  shows "\<exists>p mm dd yy e. s = p @ date_suffix mm dd yy @ e
    \<and> one_or_two_digits mm \<and> one_or_two_digits dd \<and> two_digits yy \<and> at_dollar e"
proof -
  from assms have "extract_date_from_filename s \<noteq> Inr None"
    by (simp add: extract_name_date)
  with extract_cases[of s] show ?thesis
    by blast
qed

lemma html_name_without_suffix_undated:
  assumes "glob_html s"
    and "\<nexists>p mm dd yy. s = p @ date_suffix mm dd yy
      \<and> one_or_two_digits mm \<and> one_or_two_digits dd \<and> two_digits yy"
  shows "extract_date_from_filename s = Inr None"
proof (rule ccontr)
  assume "extract_date_from_filename s \<noteq> Inr None"
  with extract_cases[of s] obtain p mm dd yy e where
    s: "s = p @ date_suffix mm dd yy @ e" and
    d: "one_or_two_digits mm" "one_or_two_digits dd" "two_digits yy" and e: "at_dollar e"
    by blast
  from assms(1) have "last s = CHR ''l''"
    by (auto simp: glob_html_def suffix_def)
  moreover have "last (p @ date_suffix mm dd yy @ [newline]) = newline"
    by simp
  ultimately have "e \<noteq> [newline]"
    using s by (auto simp: newline_def)
  with e have "e = []"
    by (simp add: at_dollar_def)
  with s d assms(2) show False
    by auto
qed

text \<open>
  C4. A filename among those \<^verbatim>\<open>main\<close> processes, the entries that \<^verbatim>\<open>glob('*.html')\<close>
  yields, that does not end with the date suffix (an underscore, one or two digits, a
  hyphen, one or two digits, a hyphen, exactly two digits, \<^verbatim>\<open>.html\<close>) yields no date:
  \<^verbatim>\<open>extract_date_from_filename\<close> returns \<^verbatim>\<open>None\<close> without raising, the loop of \<^verbatim>\<open>main\<close> puts
  the name among the undated ones and not among the dated ones, and the name is in the
  manifest.
\<close>

theorem no_suffix_undated:
  assumes "docs w = Some entries" and "fn \<in> set (html_files entries)"
    and "\<nexists>p mm dd yy. fn = p @ date_suffix mm dd yy
      \<and> one_or_two_digits mm \<and> one_or_two_digits dd \<and> two_digits yy"
  shows "extract_date_from_filename fn = Inr None
    \<and> (\<exists>files_with_dates files_without_dates.
          classify (html_files entries) [] [] = Inr (files_with_dates, files_without_dates)
          \<and> fn \<in> set files_without_dates
          \<and> fn \<notin> snd ` set files_with_dates)
    \<and> (\<exists>w' out. main w = Inr w' \<and> read_text ''files.json'' w' = Some (json_dump out)
          \<and> fn \<in> set out)"
proof -
  have "glob_html fn"
    using assms(2) by (simp add: html_files_def)
  from html_name_without_suffix_undated[OF this assms(3)]
  have ex: "extract_date_from_filename fn = Inr None" .
  then have nd: "name_date fn = None"
    by (simp add: name_date_def)
  have cl: "fn \<in> set (filter (\<lambda>n. name_date n = None) (html_files entries))"
    "fn \<notin> snd ` set (map (\<lambda>n. (the (name_date n), n))
        (filter (\<lambda>n. name_date n \<noteq> None) (html_files entries)))"
    using assms(2) nd by auto
  from main_writes[OF assms(1)] obtain w' where
    w': "main w = Inr w'"
      "read_text ''files.json'' w' = Some (json_dump (manifest_of (html_files entries)))"
    by blast
  have "set (manifest_of (html_files entries)) = set (html_files entries)"
    using mset_manifest_of[of "html_files entries"] by (rule mset_eq_setD)
  with assms(2) have "fn \<in> set (manifest_of (html_files entries))"
    by simp
  with w' have "\<exists>w' out. main w = Inr w' \<and> read_text ''files.json'' w' = Some (json_dump out)
      \<and> fn \<in> set out"
    by blast
  with ex cl show ?thesis
    by (simp add: classify_eq)
qed

lemma four_digit_year_no_suffix:
  "\<nexists>p mm dd yy. ''notes_1-2-2024.html'' = p @ date_suffix mm dd yy
      \<and> one_or_two_digits mm \<and> one_or_two_digits dd \<and> two_digits yy"
proof
  assume "\<exists>p mm dd yy. ''notes_1-2-2024.html'' = p @ date_suffix mm dd yy
      \<and> one_or_two_digits mm \<and> one_or_two_digits dd \<and> two_digits yy"
  then obtain p mm dd yy where
    n: "''notes_1-2-2024.html'' = p @ date_suffix mm dd yy @ []" and
    d: "one_or_two_digits mm" "one_or_two_digits dd" "two_digits yy"
    by auto
  have "at_dollar []" by (simp add: at_dollar_def)
  from re_search_complete[OF d this, of p] n
  have "re_search ''notes_1-2-2024.html'' = Some (mm, dd, yy)"
    by simp
  moreover have "re_search ''notes_1-2-2024.html'' = None"
    by code_simp
  ultimately show False by simp
qed

theorem no_suffix_undated_witness:
  "extract_date_from_filename ''notes_1-2-2024.html'' = Inr None
    \<and> (\<exists>files_with_dates files_without_dates.
          classify (html_files [(''a_1-2-24.html'', ''x''), (''notes_1-2-2024.html'', ''y'')]) [] []
            = Inr (files_with_dates, files_without_dates)
          \<and> ''notes_1-2-2024.html'' \<in> set files_without_dates
          \<and> ''notes_1-2-2024.html'' \<notin> snd ` set files_with_dates)
    \<and> (\<exists>w' out. main \<lparr>docs = Some [(''a_1-2-24.html'', ''x''), (''notes_1-2-2024.html'', ''y'')],
                        stdout = []\<rparr> = Inr w'
          \<and> read_text ''files.json'' w' = Some (json_dump out)
          \<and> ''notes_1-2-2024.html'' \<in> set out)"
proof -
  have "html_files [(''a_1-2-24.html'', ''x''), (''notes_1-2-2024.html'', ''y'')]
      = [''a_1-2-24.html'', ''notes_1-2-2024.html'']"
    by code_simp
  then have "''notes_1-2-2024.html''
      \<in> set (html_files [(''a_1-2-24.html'', ''x''), (''notes_1-2-2024.html'', ''y'')])"
    by simp
  then show ?thesis
    by (intro no_suffix_undated four_digit_year_no_suffix) simp_all
qed

text \<open>
  The restriction to the names that \<^verbatim>\<open>main\<close> processes matters only for a name that ends
  with the suffix and one newline character: \<^verbatim>\<open>$\<close> matches before that newline, so the
  function alone finds a date in such a name. \<^verbatim>\<open>glob('*.html')\<close> never yields it.
\<close>

lemma dollar_before_trailing_newline:
  "extract_date_from_filename (''x_01-15-24.html'' @ [newline])
     = Inr (Some \<lparr>year = 2024, month = 1, day = 15\<rparr>)
   \<and> (\<forall>p mm dd yy. ''x_01-15-24.html'' @ [newline] \<noteq> p @ date_suffix mm dd yy)"
proof -
  have "extract_date_from_filename (''x_01-15-24.html'' @ [newline])
      = Inr (Some \<lparr>year = 2024, month = 1, day = 15\<rparr>)"
    by code_simp
  moreover have "''x_01-15-24.html'' @ [newline] \<noteq> p @ date_suffix mm dd yy" for p mm dd yy
  proof
    assume "''x_01-15-24.html'' @ [newline] = p @ date_suffix mm dd yy"
    then have "last (''x_01-15-24.html'' @ [newline]) = last (p @ date_suffix mm dd yy)"
      by (rule arg_cong)
    then show False
      by (simp add: date_suffix_def newline_def)
  qed
  ultimately show ?thesis
    by blast
qed

lemma newline_name_not_globbed: "\<not> glob_html (''x_01-15-24.html'' @ [newline])"
  by code_simp

subsection \<open>The runs of \<^verbatim>\<open>main\<close>\<close>

text \<open>
  C5. When \<^verbatim>\<open>docs\<close> does not exist, \<^verbatim>\<open>main\<close> prints the message and returns, leaving
  everything else of the world as it was: no file is written. This is the only case in
  which no manifest is written: whenever \<^verbatim>\<open>docs\<close> exists, \<^verbatim>\<open>files.json\<close> is there
  afterwards. In every case \<^verbatim>\<open>main\<close> returns without an exception and the exit status of
  the script is 0.
\<close>

theorem missing_directory:
  "(docs w = None \<longrightarrow>
      main w = Inr (w\<lparr>stdout := stdout w @ ''Error: docs directory not found'' @ [newline]\<rparr>)
      \<and> script w = (0, w\<lparr>stdout := stdout w @ ''Error: docs directory not found'' @ [newline]\<rparr>))
   \<and> (docs w \<noteq> None \<longrightarrow>
      (\<exists>w'. main w = Inr w' \<and> read_text ''files.json'' w' \<noteq> None))
   \<and> (\<exists>w'. main w = Inr w') \<and> fst (script w) = 0"
proof -
  have "docs w \<noteq> None \<longrightarrow> (\<exists>w'. main w = Inr w' \<and> read_text ''files.json'' w' \<noteq> None)"
    using main_writes[of w] by fastforce
  then show ?thesis
    using main_returns[of w] script_exit[of w] by (simp add: main_missing script_def)
qed

theorem missing_directory_witness:
  "main \<lparr>docs = None, stdout = ''log''\<rparr>
     = Inr \<lparr>docs = None, stdout = ''logError: docs directory not found'' @ [newline]\<rparr>
   \<and> script \<lparr>docs = None, stdout = ''log''\<rparr>
     = (0, \<lparr>docs = None, stdout = ''logError: docs directory not found'' @ [newline]\<rparr>)
   \<and> read_text ''files.json'' \<lparr>docs = None, stdout = ''logError: docs directory not found'' @ [newline]\<rparr>
     = None"
  using missing_directory[of "\<lparr>docs = None, stdout = ''log''\<rparr>"]
  by (simp add: read_text_def)

text \<open>
  C6. The names in the manifest are exactly the names of the entries of the directory
  that end in \<^verbatim>\<open>.html\<close>, each of them once. The manifest is written anew: whatever
  \<^verbatim>\<open>files.json\<close> held before the run, or whether it was there at all, the same content is
  written, and no other entry of the directory changes.
\<close>

theorem manifest_entries:
  assumes "docs w = Some entries" and "distinct (map fst entries)"
  shows "\<exists>w' out. main w = Inr w'
    \<and> docs w' = Some (AList.update ''files.json'' (json_dump out) entries)
    \<and> read_text ''files.json'' w' = Some (json_dump out)
    \<and> set out = {n \<in> fst ` set entries. glob_html n}
    \<and> distinct out
    \<and> (\<forall>old. \<exists>v'. main (w\<lparr>docs := Some (AList.update ''files.json'' old entries)\<rparr>) = Inr v'
          \<and> read_text ''files.json'' v' = Some (json_dump out))"
proof -
  let ?out = "manifest_of (html_files entries)"
  from main_writes[OF assms(1)] obtain w' where
    w': "main w = Inr w'"
      "docs w' = Some (AList.update ''files.json'' (json_dump ?out) entries)"
      "read_text ''files.json'' w' = Some (json_dump ?out)"
    by blast
  have ms: "mset ?out = mset (html_files entries)"
    by (rule mset_manifest_of)
  have "set ?out = set (html_files entries)"
    using ms by (rule mset_eq_setD)
  then have s: "set ?out = {n \<in> fst ` set entries. glob_html n}"
    by (auto simp: html_files_def)
  have "distinct (html_files entries)"
    using assms(2) by (simp add: html_files_def)
  then have d: "distinct ?out"
    using ms by (metis mset_eq_imp_distinct_iff)
  have r: "\<exists>v'. main (w\<lparr>docs := Some (AList.update ''files.json'' old entries)\<rparr>) = Inr v'
      \<and> read_text ''files.json'' v' = Some (json_dump ?out)" for old
    using main_writes[of "w\<lparr>docs := Some (AList.update ''files.json'' old entries)\<rparr>"
        "AList.update ''files.json'' old entries"]
    by (auto simp: html_files_update[OF not_glob_files_json])
  from w' s d r show ?thesis
    by blast
qed

theorem manifest_entries_witness:
  "\<exists>w' out. main \<lparr>docs = Some [(''b.html'', ''x''), (''files.json'', ''[1]''), (''c.txt'', ''y'')], stdout = []\<rparr> = Inr w'
    \<and> docs w' = Some (AList.update ''files.json'' (json_dump out)
          [(''b.html'', ''x''), (''files.json'', ''[1]''), (''c.txt'', ''y'')])
    \<and> read_text ''files.json'' w' = Some (json_dump out)
    \<and> set out = {n \<in> fst ` set [(''b.html'', ''x''), (''files.json'', ''[1]''), (''c.txt'', ''y'')]. glob_html n}
    \<and> distinct out
    \<and> (\<forall>old. \<exists>v'. main (\<lparr>docs = Some [(''b.html'', ''x''), (''files.json'', ''[1]''), (''c.txt'', ''y'')], stdout = []\<rparr>
            \<lparr>docs := Some (AList.update ''files.json'' old
               [(''b.html'', ''x''), (''files.json'', ''[1]''), (''c.txt'', ''y'')])\<rparr>) = Inr v'
          \<and> read_text ''files.json'' v' = Some (json_dump out))"
  by (rule manifest_entries) simp_all

text \<open>
  The names written depend on the listing only through the names it holds and, for each
  date, the order in which it enumerates the names of that date.
\<close>

lemma name_key_eq_iff:
  assumes "name_date k \<noteq> None" and "name_date x \<noteq> None"
  shows "name_key k = name_key x \<longleftrightarrow> name_date x = name_date k"
  using assms by (auto simp: name_key_def date_key_eq_iff)

lemma manifest_of_cong:
  assumes ms: "mset names' = mset names"
    and ties: "\<And>d. filter (\<lambda>n. name_date n = Some d) names'
                   = filter (\<lambda>n. name_date n = Some d) names"
  shows "manifest_of names' = manifest_of names"
proof -
  let ?D = "filter (\<lambda>n. name_date n \<noteq> None) names"
  let ?D' = "filter (\<lambda>n. name_date n \<noteq> None) names'"
  let ?U = "filter (\<lambda>n. name_date n = None) names"
  let ?U' = "filter (\<lambda>n. name_date n = None) names'"
  have "mset ?U' = mset ?U"
    using ms by (simp only: mset_filter)
  then have U: "sort ?U' = sort ?U"
    by (intro properties_for_sort) simp_all
  have msD: "mset ?D' = mset ?D"
    using ms by (simp only: mset_filter)
  have tie: "filter (\<lambda>x. name_key k = name_key x) ?D' = filter (\<lambda>x. name_key k = name_key x) ?D"
    if k: "name_date k \<noteq> None" for k
  proof -
    from k obtain d where d: "name_date k = Some d" by auto
    have eq: "(name_date x \<noteq> None \<and> name_key k = name_key x) = (name_date x = Some d)" for x
      using name_key_eq_iff[OF k, of x] d by (cases "name_date x") auto
    show ?thesis
      by (simp only: filter_filter eq ties)
  qed
  have "sort_key name_key (rev ?D') = sort_key name_key (rev ?D)"
  proof (rule properties_for_sort_key)
    show "mset (sort_key name_key (rev ?D)) = mset (rev ?D')"
      using msD by simp
    show "sorted (map name_key (sort_key name_key (rev ?D)))"
      by simp
    show "filter (\<lambda>x. name_key k = name_key x) (sort_key name_key (rev ?D))
        = filter (\<lambda>x. name_key k = name_key x) (rev ?D')"
      if "k \<in> set (sort_key name_key (rev ?D))" for k
    proof -
      from that have k: "name_date k \<noteq> None" by simp
      have "filter (\<lambda>x. name_key k = name_key x) (sort_key name_key (rev ?D))
          = filter (\<lambda>x. name_key x = name_key k) (sort_key name_key (rev ?D))"
        by (simp only: eq_commute)
      also have "\<dots> = filter (\<lambda>x. name_key x = name_key k) (rev ?D)"
        by (simp only: sort_key_stable)
      also have "\<dots> = rev (filter (\<lambda>x. name_key k = name_key x) ?D)"
        by (simp only: rev_filter eq_commute)
      also have "\<dots> = rev (filter (\<lambda>x. name_key k = name_key x) ?D')"
        by (simp only: tie[OF k])
      also have "\<dots> = filter (\<lambda>x. name_key k = name_key x) (rev ?D')"
        by (simp only: rev_filter)
      finally show ?thesis .
    qed
  qed
  with U show ?thesis
    by (simp only: manifest_of_eq)
qed

lemma written_existing:
  assumes "docs w = Some entries"
  shows "written w = Some (json_dump (manifest_of (html_files entries)))"
    and "after_main w = Some (AList.update ''files.json''
           (json_dump (manifest_of (html_files entries))) entries)"
  using main_writes[OF assms] by (auto simp: written_def after_main_def update_conv')

text \<open>
  C7, as amended. Two runs of \<^verbatim>\<open>main\<close> on directories that hold the same \<^verbatim>\<open>.html\<close> names
  and enumerate the names of each single date in the same order write the same text to
  \<^verbatim>\<open>files.json\<close>, character for character, and both do write it. This holds in
  particular for a second run on the world the first run left behind: the manifest of
  the first run is no \<^verbatim>\<open>.html\<close> entry, so the second run does not see it, writes the same
  text again and leaves the directory as the first run left it.
\<close>

theorem runs_agree:
  assumes "docs w = Some entries" and "docs v = Some entries'"
    and "mset (html_files entries') = mset (html_files entries)"
    and "\<forall>d. filter (\<lambda>n. name_date n = Some d) (html_files entries')
             = filter (\<lambda>n. name_date n = Some d) (html_files entries)"
  shows "\<exists>text w1. written w = Some text \<and> written v = Some text
    \<and> main w = Inr w1 \<and> written w1 = Some text \<and> after_main w1 = after_main w"
proof -
  let ?text = "json_dump (manifest_of (html_files entries))"
  have "manifest_of (html_files entries') = manifest_of (html_files entries)"
    using assms(3,4) by (intro manifest_of_cong) simp_all
  with written_existing(1)[OF assms(2)] have v: "written v = Some ?text"
    by simp
  from main_writes[OF assms(1)] obtain w1 where
    w1: "main w = Inr w1" "docs w1 = Some (AList.update ''files.json'' ?text entries)"
    by blast
  have h: "html_files (AList.update ''files.json'' ?text entries) = html_files entries"
    by (rule html_files_update[OF not_glob_files_json])
  from written_existing[OF w1(2)] have "written w1 = Some ?text"
    "after_main w1 = Some (AList.update ''files.json'' ?text entries)"
    by (simp_all add: h)
  with written_existing[OF assms(1)] v w1(1) show ?thesis
    by simp
qed

theorem runs_agree_witness:
  "\<exists>text w1.
      written \<lparr>docs = Some [(''b_1-2-24.html'', ''x''), (''a_01-03-24.html'', ''y''),
                            (''index.html'', ''z'')], stdout = []\<rparr> = Some text
    \<and> written \<lparr>docs = Some [(''files.json'', ''old''), (''index.html'', ''z''),
                            (''a_01-03-24.html'', ''y''), (''b_1-2-24.html'', ''x'')],
                stdout = []\<rparr> = Some text
    \<and> main \<lparr>docs = Some [(''b_1-2-24.html'', ''x''), (''a_01-03-24.html'', ''y''),
                            (''index.html'', ''z'')], stdout = []\<rparr> = Inr w1
    \<and> written w1 = Some text
    \<and> after_main w1
        = after_main \<lparr>docs = Some [(''b_1-2-24.html'', ''x''), (''a_01-03-24.html'', ''y''),
                            (''index.html'', ''z'')], stdout = []\<rparr>"
proof -
  have h: "html_files [(''b_1-2-24.html'', ''x''), (''a_01-03-24.html'', ''y''),
                       (''index.html'', ''z'')]
        = [''b_1-2-24.html'', ''a_01-03-24.html'', ''index.html'']"
    "html_files [(''files.json'', ''old''), (''index.html'', ''z''),
                 (''a_01-03-24.html'', ''y''), (''b_1-2-24.html'', ''x'')]
        = [''index.html'', ''a_01-03-24.html'', ''b_1-2-24.html'']"
    by code_simp+
  have n: "name_date ''b_1-2-24.html'' = Some \<lparr>year = 2024, month = 1, day = 2\<rparr>"
    "name_date ''a_01-03-24.html'' = Some \<lparr>year = 2024, month = 1, day = 3\<rparr>"
    "name_date ''index.html'' = None"
    by code_simp+
  show ?thesis
  proof (rule runs_agree)
    show "mset (html_files [(''files.json'', ''old''), (''index.html'', ''z''),
                 (''a_01-03-24.html'', ''y''), (''b_1-2-24.html'', ''x'')])
        = mset (html_files [(''b_1-2-24.html'', ''x''), (''a_01-03-24.html'', ''y''),
                       (''index.html'', ''z'')])"
      by (simp add: h add_mset_commute)
    show "\<forall>d. filter (\<lambda>n. name_date n = Some d)
            (html_files [(''files.json'', ''old''), (''index.html'', ''z''),
                 (''a_01-03-24.html'', ''y''), (''b_1-2-24.html'', ''x'')])
          = filter (\<lambda>n. name_date n = Some d)
            (html_files [(''b_1-2-24.html'', ''x''), (''a_01-03-24.html'', ''y''),
                       (''index.html'', ''z'')])"
      by (auto simp: h n)
  qed simp_all
qed

text \<open>
  Without the condition on the order the texts can differ. The first run below leaves
  three entries; a second run that finds the same three entries, with the same contents,
  enumerated in another order writes the two names of 2 January 2024 in the other
  order.
\<close>

theorem reenumerated_tie_counterexample:
  "after_main \<lparr>docs = Some [(''b_1-2-24.html'', ''x''), (''a_01-02-24.html'', ''y'')],
               stdout = []\<rparr>
     = Some [(''b_1-2-24.html'', ''x''), (''a_01-02-24.html'', ''y''),
             (''files.json'', json_dump [''b_1-2-24.html'', ''a_01-02-24.html''])]
   \<and> mset [(''a_01-02-24.html'', ''y''), (''b_1-2-24.html'', ''x''),
            (''files.json'', json_dump [''b_1-2-24.html'', ''a_01-02-24.html''])]
     = mset [(''b_1-2-24.html'', ''x''), (''a_01-02-24.html'', ''y''),
             (''files.json'', json_dump [''b_1-2-24.html'', ''a_01-02-24.html''])]
   \<and> written \<lparr>docs = Some [(''b_1-2-24.html'', ''x''), (''a_01-02-24.html'', ''y'')],
               stdout = []\<rparr>
     = Some (json_dump [''b_1-2-24.html'', ''a_01-02-24.html''])
   \<and> written \<lparr>docs = Some [(''a_01-02-24.html'', ''y''), (''b_1-2-24.html'', ''x''),
                 (''files.json'', json_dump [''b_1-2-24.html'', ''a_01-02-24.html''])],
               stdout = []\<rparr>
     = Some (json_dump [''a_01-02-24.html'', ''b_1-2-24.html''])
   \<and> json_dump [''b_1-2-24.html'', ''a_01-02-24.html'']
     \<noteq> json_dump [''a_01-02-24.html'', ''b_1-2-24.html'']"
proof -
  have m: "manifest_of [''b_1-2-24.html'', ''a_01-02-24.html'']
        = [''b_1-2-24.html'', ''a_01-02-24.html'']"
    "manifest_of [''a_01-02-24.html'', ''b_1-2-24.html'']
        = [''a_01-02-24.html'', ''b_1-2-24.html'']"
    by code_simp+
  have h: "html_files [(''b_1-2-24.html'', ''x''), (''a_01-02-24.html'', ''y'')]
        = [''b_1-2-24.html'', ''a_01-02-24.html'']"
    "html_files [(''a_01-02-24.html'', ''y''), (''b_1-2-24.html'', ''x''),
                 (''files.json'', json_dump [''b_1-2-24.html'', ''a_01-02-24.html''])]
        = [''a_01-02-24.html'', ''b_1-2-24.html'']"
    by code_simp+
  have j: "json_dump [''b_1-2-24.html'', ''a_01-02-24.html'']
     \<noteq> json_dump [''a_01-02-24.html'', ''b_1-2-24.html'']"
    by code_simp
  have "written \<lparr>docs = Some [(''b_1-2-24.html'', ''x''), (''a_01-02-24.html'', ''y'')],
               stdout = []\<rparr>
     = Some (json_dump [''b_1-2-24.html'', ''a_01-02-24.html''])"
    "after_main \<lparr>docs = Some [(''b_1-2-24.html'', ''x''), (''a_01-02-24.html'', ''y'')],
               stdout = []\<rparr>
     = Some [(''b_1-2-24.html'', ''x''), (''a_01-02-24.html'', ''y''),
             (''files.json'', json_dump [''b_1-2-24.html'', ''a_01-02-24.html''])]"
    by (simp_all add: written_existing h m)
  moreover have "written \<lparr>docs = Some [(''a_01-02-24.html'', ''y''), (''b_1-2-24.html'', ''x''),
                 (''files.json'', json_dump [''b_1-2-24.html'', ''a_01-02-24.html''])],
               stdout = []\<rparr>
     = Some (json_dump [''a_01-02-24.html'', ''b_1-2-24.html''])"
    by (simp add: written_existing h m)
  ultimately show ?thesis
    using j by (simp add: add_mset_commute)
qed

text \<open>
  C8. When \<^verbatim>\<open>docs\<close> exists and none of its entries ends in \<^verbatim>\<open>.html\<close>, \<^verbatim>\<open>main\<close> returns
  without an exception and the content of \<^verbatim>\<open>files.json\<close> is \<^verbatim>\<open>[]\<close>.
\<close>

theorem no_html_files:
  assumes "docs w = Some entries" and "html_files entries = []"
  shows "\<exists>w'. main w = Inr w' \<and> read_text ''files.json'' w' = Some ''[]'' \<and> script w = (0, w')"
  using main_writes[OF assms(1)]
  by (auto simp: assms(2) manifest_of_eq json_dump_def script_def)

theorem no_html_files_witness:
  "html_files [(''notes.txt'', ''x''), (''page.HTML'', ''y'')] = []
   \<and> (\<exists>w'. main \<lparr>docs = Some [(''notes.txt'', ''x''), (''page.HTML'', ''y'')], stdout = []\<rparr> = Inr w'
        \<and> read_text ''files.json'' w' = Some ''[]''
        \<and> script \<lparr>docs = Some [(''notes.txt'', ''x''), (''page.HTML'', ''y'')], stdout = []\<rparr> = (0, w'))"
proof -
  have h: "html_files [(''notes.txt'', ''x''), (''page.HTML'', ''y'')] = []"
    by (simp add: html_files_def glob_html_def suffix_def)
  show ?thesis
    using h no_html_files[of "\<lparr>docs = Some [(''notes.txt'', ''x''), (''page.HTML'', ''y'')], stdout = []\<rparr>", OF _ h]
    by simp
qed

subsection \<open>The example of the specification\<close>

lemma name_date_report:
  "name_date ''report_01-15-24.html'' = Some \<lparr>year = 2024, month = 1, day = 15\<rparr>"
  by code_simp

lemma name_date_notes:
  "name_date ''notes_12-31-23.html'' = Some \<lparr>year = 2023, month = 12, day = 31\<rparr>"
  by code_simp

lemma name_date_index: "name_date ''index.html'' = None"
  by code_simp

lemma name_date_draft: "name_date ''draft_02-30-24.html'' = None"
  by code_simp

lemmas example_dates = name_date_report name_date_notes name_date_index name_date_draft

lemma manifest_of_example:
  assumes "mset names = mset [''report_01-15-24.html'', ''notes_12-31-23.html'',
      ''index.html'', ''draft_02-30-24.html'']"
  shows "manifest_of names = [''report_01-15-24.html'', ''notes_12-31-23.html'',
      ''draft_02-30-24.html'', ''index.html'']"
proof -
  let ?D = "filter (\<lambda>n. name_date n \<noteq> None) names"
  let ?U = "filter (\<lambda>n. name_date n = None) names"
  have "mset ?D = filter_mset (\<lambda>n. name_date n \<noteq> None) (mset names)"
    by simp
  then have D: "mset ?D = mset [''notes_12-31-23.html'', ''report_01-15-24.html'']"
    unfolding assms by (simp add: example_dates)
  have "mset ?U = filter_mset (\<lambda>n. name_date n = None) (mset names)"
    by simp
  then have U: "mset ?U = mset [''draft_02-30-24.html'', ''index.html'']"
    unfolding assms by (simp add: example_dates)
  have keys: "name_key ''notes_12-31-23.html'' = (2023, 12, 31)"
    "name_key ''report_01-15-24.html'' = (2024, 1, 15)"
    by (simp_all add: name_key_def example_dates date_key_def)
  have "set (rev ?D) = {''notes_12-31-23.html'', ''report_01-15-24.html''}"
    using mset_eq_setD[OF D] by simp
  then have inj: "inj_on name_key (set (rev ?D))"
    by (simp add: keys)
  have "sort_key name_key (rev ?D) = [''notes_12-31-23.html'', ''report_01-15-24.html'']"
  proof (rule sort_key_inj_key_eq[OF _ inj])
    show "mset (rev ?D) = mset [''notes_12-31-23.html'', ''report_01-15-24.html'']"
      using D by simp
    show "sorted (map name_key [''notes_12-31-23.html'', ''report_01-15-24.html''])"
      by (simp add: keys less_eq_prod_def)
  qed
  moreover have "sort ?U = [''draft_02-30-24.html'', ''index.html'']"
  proof (rule properties_for_sort)
    show "mset [''draft_02-30-24.html'', ''index.html''] = mset ?U"
      using U by simp
    show "sorted [''draft_02-30-24.html'', ''index.html'']"
      by simp
  qed
  ultimately show ?thesis
    by (simp only: manifest_of_eq) simp
qed

text \<open>
  C9. For a directory whose \<^verbatim>\<open>.html\<close> entries are \<^verbatim>\<open>report_01-15-24.html\<close>,
  \<^verbatim>\<open>notes_12-31-23.html\<close>, \<^verbatim>\<open>index.html\<close> and \<^verbatim>\<open>draft_02-30-24.html\<close>, in whatever order they
  are enumerated, the manifest lists \<^verbatim>\<open>report_01-15-24.html\<close>, \<^verbatim>\<open>notes_12-31-23.html\<close>,
  \<^verbatim>\<open>draft_02-30-24.html\<close>, \<^verbatim>\<open>index.html\<close>, in this order.
\<close>

theorem example_manifest:
  assumes "docs w = Some entries"
    and "mset (html_files entries) = mset [''report_01-15-24.html'', ''notes_12-31-23.html'',
      ''index.html'', ''draft_02-30-24.html'']"
  shows "\<exists>w'. main w = Inr w'
    \<and> read_text ''files.json'' w' = Some (json_dump [''report_01-15-24.html'',
         ''notes_12-31-23.html'', ''draft_02-30-24.html'', ''index.html''])"
  using main_writes[OF assms(1)] by (auto simp: manifest_of_example[OF assms(2)])

theorem example_manifest_witness:
  "\<exists>w'. main \<lparr>docs = Some [(''index.html'', ''a''), (''notes_12-31-23.html'', ''b''),
        (''files.json'', ''c''), (''draft_02-30-24.html'', ''d''),
        (''report_01-15-24.html'', ''e'')], stdout = []\<rparr> = Inr w'
    \<and> read_text ''files.json'' w' = Some (json_dump [''report_01-15-24.html'',
         ''notes_12-31-23.html'', ''draft_02-30-24.html'', ''index.html''])"
proof -
  have "html_files [(''index.html'', ''a''), (''notes_12-31-23.html'', ''b''),
        (''files.json'', ''c''), (''draft_02-30-24.html'', ''d''),
        (''report_01-15-24.html'', ''e'')]
      = [''index.html'', ''notes_12-31-23.html'', ''draft_02-30-24.html'',
         ''report_01-15-24.html'']"
    by code_simp
  then have "mset (html_files [(''index.html'', ''a''), (''notes_12-31-23.html'', ''b''),
        (''files.json'', ''c''), (''draft_02-30-24.html'', ''d''),
        (''report_01-15-24.html'', ''e'')])
      = mset [''report_01-15-24.html'', ''notes_12-31-23.html'', ''index.html'',
          ''draft_02-30-24.html'']"
    by (simp add: add_mset_commute)
  then show ?thesis
    by (intro example_manifest) simp_all
qed

end
